theory Spec2Isabelle
  imports Main "HOL-Library.Word" "HOL-Library.Multiset"
begin

section \<open>The batch generator of compiled/interface/trainDataGenerator.h\<close>

text \<open>
  The class \<open>trainDataGenerator<T>\<close> is embedded as a record with one field per data
  member and one function per member function. Member functions that throw return the
  exception as a value next to the object as the exception leaves it, because a C++
  exception does not undo the assignments made before it. The end of the process by
  \<open>std::terminate\<close> and undefined behaviour are values of the same kind; the object
  that stands next to them is the one at that moment and has no further use in the
  program. The output that the \<open>debug\<close> flag switches on and the destructor are left
  out. The member function \<open>end\<close> is \<open>end_generator\<close> here.
\<close>

subsection \<open>Machine integers and errors\<close>

type_synonym size_t = "64 word"

datatype error =
    MalformedFile string    \<comment> \<open>runtime_error of readNTotal: no features filled\<close>
  | FileUnavailable string  \<comment> \<open>runtime_error of readBuffer: file could not be read\<close>
  | InsufficientData        \<comment> \<open>runtime_error of prepareBatch: more batches requested than data\<close>
  | OutOfRange              \<comment> \<open>std::out_of_range of vector::at\<close>
  | DivisionByZero          \<comment> \<open>unsigned division by zero, undefined in C++\<close>
  | Terminate error         \<comment> \<open>std::terminate: this exception left the worker, the process ends\<close>
  | UseAfterFree            \<comment> \<open>join through a pointer to a deleted thread, undefined in C++\<close>

subsection \<open>The sample container\<close>

text \<open>
  Modelled from the spec: \<open>trainData<T>\<close> is declared in trainData.h, which is not part
  of the sources at hand. The specification describes it as an appendable, splittable
  container of samples with an element count, an append, a split that hands out the
  first n samples and keeps the remainder in place, and a clear. It is a list of samples.
\<close>

type_synonym 'a trainData = "'a list"

definition nElements :: "'a trainData \<Rightarrow> size_t" where
  "nElements td = of_nat (length td)"

definition append_trainData :: "'a trainData \<Rightarrow> 'a trainData \<Rightarrow> 'a trainData" where
  "append_trainData td other = td @ other"

definition split_trainData :: "'a trainData \<Rightarrow> size_t \<Rightarrow> 'a trainData \<times> 'a trainData" where
  "split_trainData td n = (take (unat n) td, drop (unat n) td)"

definition clear_trainData :: "'a trainData \<Rightarrow> 'a trainData" where
  "clear_trainData td = []"

text \<open>
  \<open>std::vector::at\<close>: the element at an index, or \<open>std::out_of_range\<close>.
\<close>

definition at :: "'b list \<Rightarrow> size_t \<Rightarrow> error + 'b" where
  "at v n = (if unat n < length v then Inr (v ! unat n) else Inl OutOfRange)"

subsection \<open>The files\<close>

text \<open>
  What one pass of the retry loop of \<open>readBuffer\<close> finds: \<open>io::fileExists\<close> is false,
  or the file exists and \<open>readFromFile\<close> throws, or the file is read.
\<close>

datatype 'a read_outcome = Absent | Glitch | Readable "'a trainData"

text \<open>
  Modelled from the spec: \<open>readShapesFromFile\<close>, \<open>readFromFile\<close> and \<open>io::fileExists\<close>
  are collaborators outside the sources at hand. \<open>featureShapes f\<close> is the list of feature
  shapes that \<open>readShapesFromFile\<close> reports for the file \<open>f\<close> (each entry a C \<open>int\<close>),
  and \<open>probe f k\<close> is what pass number \<open>k\<close> of a load of \<open>f\<close> finds.
\<close>

record 'a filesystem =
  featureShapes :: "string \<Rightarrow> int list list"
  probe :: "string \<Rightarrow> nat \<Rightarrow> 'a read_outcome"

subsection \<open>The pseudo-random engine and the shuffle\<close>

text \<open>
  \<open>std::mt19937\<close> and \<open>std::shuffle\<close> belong to the C++ standard library. An engine
  is represented by the 32-bit value it was last seeded with; \<open>seed\<close> is handed the
  \<open>int\<close> \<open>randomcount_\<close>, whose conversion to the unsigned seed keeps its 32 bits. The
  numbers the engine then
  produces are a parameter \<open>mt\<close> of the model: \<open>mt sd k\<close> is draw number \<open>k\<close> of an
  engine seeded with \<open>sd\<close>. The shuffle is the exchange loop of Fisher and Yates,
  which exchanges position \<open>i\<close> with a drawn position not beyond \<open>i\<close>.
\<close>

datatype engine = Engine (engine_seed: "32 word")

definition mt19937 :: "32 word \<Rightarrow> engine" where
  "mt19937 value0 = Engine value0"

definition seed :: "engine \<Rightarrow> 32 word \<Rightarrow> engine" where
  "seed g value0 = Engine value0"

definition swap_at :: "nat \<Rightarrow> nat \<Rightarrow> 'b list \<Rightarrow> 'b list" where
  "swap_at i j xs = xs[i := xs ! j, j := xs ! i]"

definition std_shuffle :: "(nat \<Rightarrow> nat) \<Rightarrow> 'b list \<Rightarrow> 'b list" where
  "std_shuffle draw xs = fold (\<lambda>i ys. swap_at i (draw i mod Suc i) ys) [1..<length xs] xs"

subsection \<open>The generator object\<close>

text \<open>
  A worker is a \<open>std::thread\<close> that runs \<open>readBuffer\<close> from the moment it is started,
  with the file name, the timeout and the files of that moment. What it comes to is
  fixed then: it reads the data, or \<open>readBuffer\<close> throws, or \<open>readBuffer\<close> never
  returns. The worker is the only writer of \<open>buffer_read\<close> and the foreground touches
  that buffer only after a join, so the data appear in \<open>buffer_read\<close> at the join. An
  exception that leaves a thread ends the process, at the join at the latest.
\<close>

datatype 'a worker =
    Loaded "'a trainData"  \<comment> \<open>readBuffer returns with these data read\<close>
  | Crashed error          \<comment> \<open>readBuffer throws\<close>
  | Endless                \<comment> \<open>readBuffer does not return\<close>

text \<open>
  The pointer \<open>readthread_\<close>: null, or pointing to a thread that has been started and
  not joined, or left pointing to a thread that has been deleted.
\<close>

datatype 'a thread_ptr = Null | Running "'a worker" | Dangling

text \<open>
  \<open>randomcount_\<close> is an \<open>int\<close> of 32 bits, held as its bits in two's complement
  (\<open>sint\<close> reads its value). Its increment wraps around at the largest \<open>int\<close>, where
  C++ leaves the overflow undefined.
\<close>

record 'a trainDataGenerator =
  debug :: bool
  orig_infiles :: "string list"
  shuffled_infiles :: "string list"
  randomcount :: "32 word"
  batchsize :: size_t
  buffer_store :: "'a trainData"
  buffer_read :: "'a trainData"
  readthread :: "'a thread_ptr"
  nextread :: string
  filecount :: size_t
  nbatches :: size_t
  ntotal :: size_t
  nsamplesprocessed :: size_t
  lastbatchsize :: size_t
  filetimeout :: size_t
  threading :: bool

definition init :: "'a trainDataGenerator" where
  "init = \<lparr> debug = False, orig_infiles = [], shuffled_infiles = [], randomcount = 1,
            batchsize = 2, buffer_store = [], buffer_read = [], readthread = Null,
            nextread = [], filecount = 0, nbatches = 0, ntotal = 0,
            nsamplesprocessed = 0, lastbatchsize = 0, filetimeout = 10,
            threading = True \<rparr>"

subsection \<open>readNTotal, setFileList, setBatchSize and the accessors\<close>

text \<open>
  The loop of \<open>readNTotal\<close> over \<open>orig_infiles_\<close>. \<open>no_features\<close> is the test
  \<open>fs.size()<1 || fs.at(0).size()<1\<close> of the source, and \<open>hd (hd shapes)\<close> is
  \<open>fs.at(0).at(0)\<close> behind that test. The \<open>int\<close> entry is converted to \<open>size_t\<close> by the
  addition, so it is added modulo \<open>2 ^ 64\<close>. When the loop throws, the sum reached so
  far stays in \<open>ntotal_\<close>.
\<close>

definition no_features :: "int list list \<Rightarrow> bool" where
  "no_features shapes \<longleftrightarrow> length shapes < 1 \<or> length (hd shapes) < 1"

fun readNTotal_loop :: "(string \<Rightarrow> int list list) \<Rightarrow> string list \<Rightarrow> size_t \<Rightarrow> error option \<times> size_t" where
  "readNTotal_loop sh [] n = (None, n)"
| "readNTotal_loop sh (f # fl) n =
     (let shapes = sh f
      in if no_features shapes then (Some (MalformedFile f), n)
         else readNTotal_loop sh fl (n + word_of_int (hd (hd shapes))))"

definition readNTotal :: "'a filesystem \<Rightarrow> 'a trainDataGenerator \<Rightarrow> (error + unit) \<times> 'a trainDataGenerator" where
  "readNTotal fs s =
     (case readNTotal_loop (featureShapes fs) (orig_infiles s) 0 of
        (Some e, n) \<Rightarrow> (Inl e, s\<lparr>ntotal := n\<rparr>)
      | (None, n) \<Rightarrow>
          if batchsize s = 0 then (Inl DivisionByZero, s\<lparr>ntotal := n\<rparr>)
          else (Inr (), s\<lparr>ntotal := n, nbatches := n div batchsize s\<rparr>))"

definition setFileList :: "'a filesystem \<Rightarrow> string list \<Rightarrow> 'a trainDataGenerator \<Rightarrow> (error + unit) \<times> 'a trainDataGenerator" where
  "setFileList fs files s = readNTotal fs (s\<lparr>orig_infiles := files, shuffled_infiles := files\<rparr>)"

definition setBatchSize :: "size_t \<Rightarrow> 'a trainDataGenerator \<Rightarrow> (error + unit) \<times> 'a trainDataGenerator" where
  "setBatchSize nelements s =
     (if nelements = 0 then (Inl DivisionByZero, s\<lparr>batchsize := nelements\<rparr>)
      else (Inr (), s\<lparr>batchsize := nelements, nbatches := ntotal s div nelements\<rparr>))"

definition getNTotal :: "'a trainDataGenerator \<Rightarrow> size_t" where
  "getNTotal s = ntotal s"

definition setFileTimeout :: "size_t \<Rightarrow> 'a trainDataGenerator \<Rightarrow> 'a trainDataGenerator" where
  "setFileTimeout seconds s = s\<lparr>filetimeout := seconds\<rparr>"

definition getNBatches :: "'a trainDataGenerator \<Rightarrow> size_t" where
  "getNBatches s = nbatches s"

definition lastBatch :: "'a trainDataGenerator \<Rightarrow> bool" where
  "lastBatch s = (nsamplesprocessed s \<ge> ntotal s - lastbatchsize s)"

definition enableThreading :: "bool \<Rightarrow> 'a trainDataGenerator \<Rightarrow> 'a trainDataGenerator" where
  "enableThreading en s = s\<lparr>threading := en\<rparr>"

subsection \<open>shuffleFilelist\<close>

text \<open>
  The engine is constructed from the value \<open>rd\<close> of \<open>std::random_device\<close> and then
  seeded again with \<open>randomcount_\<close>, which is incremented afterwards.
\<close>

definition shuffleFilelist :: "(32 word \<Rightarrow> nat \<Rightarrow> nat) \<Rightarrow> 32 word \<Rightarrow> 'a trainDataGenerator \<Rightarrow> 'a trainDataGenerator" where
  "shuffleFilelist mt rd s =
     (let g = seed (mt19937 rd) (randomcount s)
      in s\<lparr>randomcount := randomcount s + 1,
           shuffled_infiles := std_shuffle (mt (engine_seed g)) (shuffled_infiles s)\<rparr>)"

subsection \<open>readBuffer\<close>

text \<open>
  The retry loop of \<open>readBuffer\<close>. \<open>pass\<close> counts the passes made so far and \<open>ntries\<close>
  is the local variable of the source, a \<open>size_t\<close>. A pass that finds the file absent
  sleeps and adds one to \<open>ntries\<close>; a pass whose read throws adds one in the handler,
  then sleeps and adds one more. The result is the number of passes that failed, each
  of which slept once, and the data read, if any. The loop need not end when
  \<open>ntries\<close> wraps around, so the function is partial.
\<close>

partial_function (option) readBuffer_loop :: "(nat \<Rightarrow> 'a read_outcome) \<Rightarrow> size_t \<Rightarrow> nat \<Rightarrow> size_t \<Rightarrow> (nat \<times> 'a trainData option) option" where
  "readBuffer_loop env timeout pass ntries =
     (if ntries < timeout then
        (case env pass of
           Readable td \<Rightarrow> Some (pass, Some td)
         | Glitch \<Rightarrow> readBuffer_loop env timeout (Suc pass) (ntries + 1 + 1)
         | Absent \<Rightarrow> readBuffer_loop env timeout (Suc pass) (ntries + 1))
      else Some (pass, None))"

declare readBuffer_loop.simps [code]

definition readBuffer :: "'a filesystem \<Rightarrow> 'a trainDataGenerator \<Rightarrow> ((error + unit) \<times> 'a trainDataGenerator) option" where
  "readBuffer fs s =
     (case readBuffer_loop (probe fs (nextread s)) (filetimeout s) 0 0 of
        None \<Rightarrow> None
      | Some (_, Some td) \<Rightarrow> Some (Inr (), s\<lparr>buffer_read := td\<rparr>)
      | Some (_, None) \<Rightarrow>
          Some (Inl (FileUnavailable (nextread s)), s\<lparr>buffer_read := clear_trainData (buffer_read s)\<rparr>))"

subsection \<open>Starting and joining the worker\<close>

text \<open>
  \<open>readthread_ = new std::thread(&trainDataGenerator<T>::readBuffer,this)\<close>: what the
  worker comes to is what \<open>readBuffer\<close> does on the object as it is now.
\<close>

definition worker_of :: "'a filesystem \<Rightarrow> 'a trainDataGenerator \<Rightarrow> 'a worker" where
  "worker_of fs s =
     (case readBuffer fs s of
        None \<Rightarrow> Endless
      | Some (Inl e, _) \<Rightarrow> Crashed e
      | Some (Inr _, s1) \<Rightarrow> Loaded (buffer_read s1))"

definition launch :: "'a filesystem \<Rightarrow> 'a trainDataGenerator \<Rightarrow> 'a trainDataGenerator" where
  "launch fs s = s\<lparr>readthread := Running (worker_of fs s)\<rparr>"

text \<open>
  \<open>readthread_->join()\<close>, which the source calls only when the pointer is not null.
\<close>

definition join :: "'a trainDataGenerator \<Rightarrow> ((error + unit) \<times> 'a trainDataGenerator) option" where
  "join s =
     (case readthread s of
        Null \<Rightarrow> Some (Inr (), s)
      | Running (Loaded td) \<Rightarrow> Some (Inr (), s\<lparr>buffer_read := td\<rparr>)
      | Running (Crashed e) \<Rightarrow> Some (Inl (Terminate e), s)
      | Running Endless \<Rightarrow> None
      | Dangling \<Rightarrow> Some (Inl UseAfterFree, s))"

text \<open>
  The block \<open>if(readthread_){ readthread_->join(); delete readthread_; }\<close>. It leaves
  the pointer dangling; \<open>prepareBatch\<close> and \<open>end\<close> set it to null in the same block.
\<close>

definition join_delete :: "'a trainDataGenerator \<Rightarrow> ((error + unit) \<times> 'a trainDataGenerator) option" where
  "join_delete s =
     (if readthread s = Null then Some (Inr (), s)
      else (case join s of
              None \<Rightarrow> None
            | Some (Inl e, s1) \<Rightarrow> Some (Inl e, s1)
            | Some (Inr _, s1) \<Rightarrow> Some (Inr (), s1\<lparr>readthread := Dangling\<rparr>)))"

subsection \<open>prepareNextEpoch and end\<close>

text \<open>
  When \<open>shuffled_infiles_.at(filecount_)\<close> throws, the pointer stays as the block has
  left it: dangling if there was a worker.
\<close>

definition prepareNextEpoch :: "(32 word \<Rightarrow> nat \<Rightarrow> nat) \<Rightarrow> 32 word \<Rightarrow> 'a filesystem \<Rightarrow> 'a trainDataGenerator \<Rightarrow> ((error + unit) \<times> 'a trainDataGenerator) option" where
  "prepareNextEpoch mt rd fs s =
     (case join_delete s of
        None \<Rightarrow> None
      | Some (Inl e, s1) \<Rightarrow> Some (Inl e, s1)
      | Some (Inr _, s1) \<Rightarrow>
          (let s2 = s1\<lparr>buffer_store := clear_trainData (buffer_store s1),
                       buffer_read := clear_trainData (buffer_read s1),
                       filecount := 0, nsamplesprocessed := 0\<rparr>;
               s3 = shuffleFilelist mt rd s2
           in case at (shuffled_infiles s3) (filecount s3) of
                Inl e \<Rightarrow> Some (Inl e, s3)
              | Inr f \<Rightarrow> Some (Inr (), launch fs (s3\<lparr>nextread := f\<rparr>))))"

definition end_generator :: "'a trainDataGenerator \<Rightarrow> ((error + unit) \<times> 'a trainDataGenerator) option" where
  "end_generator s =
     (case join_delete s of
        None \<Rightarrow> None
      | Some (Inl e, s1) \<Rightarrow> Some (Inl e, s1)
      | Some (Inr _, s1) \<Rightarrow> Some (Inr (), s1\<lparr>readthread := Null\<rparr>))"

subsection \<open>prepareBatch and getBatch\<close>

text \<open>
  The \<open>while\<close> loop of \<open>prepareBatch\<close>. The local \<open>bufferelements\<close> is
  \<open>buffer_store.nElements()\<close> at every test of the source. Nothing bounds the number of
  passes, so the function is partial and \<open>None\<close> is a loop that never ends.
\<close>

partial_function (option) prepareBatch_loop :: "'a filesystem \<Rightarrow> 'a trainDataGenerator \<Rightarrow> ((error + unit) \<times> 'a trainDataGenerator) option" where
  "prepareBatch_loop fs s =
     (if nElements (buffer_store s) < batchsize s then
        (case join_delete s of
           None \<Rightarrow> None
         | Some (Inl e, s1) \<Rightarrow> Some (Inl e, s1)
         | Some (Inr _, s1) \<Rightarrow>
             (let s2 = s1\<lparr>readthread := Null,
                          buffer_store := append_trainData (buffer_store s1) (buffer_read s1),
                          buffer_read := clear_trainData (buffer_read s1)\<rparr>
              in if nsamplesprocessed s2 + nElements (buffer_store s2) < ntotal s2 then
                   (if filecount s2 \<ge> of_nat (length (shuffled_infiles s2))
                    then Some (Inl InsufficientData, s2)
                    else (case at (shuffled_infiles s2) (filecount s2) of
                            Inl e \<Rightarrow> Some (Inl e, s2)
                          | Inr f \<Rightarrow>
                              prepareBatch_loop fs
                                (launch fs (s2\<lparr>nextread := f,
                                               filecount := filecount s2 + 1\<rparr>))))
                 else prepareBatch_loop fs s2))
      else Some (Inr (), s))"

declare prepareBatch_loop.simps [code]

definition prepareBatch :: "'a filesystem \<Rightarrow> 'a trainDataGenerator \<Rightarrow> ((error + 'a trainData) \<times> 'a trainDataGenerator) option" where
  "prepareBatch fs s =
     (case prepareBatch_loop fs s of
        None \<Rightarrow> None
      | Some (Inl e, s1) \<Rightarrow> Some (Inl e, s1)
      | Some (Inr _, s1) \<Rightarrow>
          (let (batch, rest) = split_trainData (buffer_store s1) (batchsize s1)
           in Some (Inr batch,
                    s1\<lparr>nsamplesprocessed := nsamplesprocessed s1 + batchsize s1,
                       lastbatchsize := batchsize s1,
                       buffer_store := rest\<rparr>)))"

definition getBatch :: "'a filesystem \<Rightarrow> 'a trainDataGenerator \<Rightarrow> ((error + 'a trainData) \<times> 'a trainDataGenerator) option" where
  "getBatch fs s = prepareBatch fs s"

subsection \<open>Callers\<close>

text \<open>
  A caller that asks for \<open>k\<close> batches one after the other and collects them, stopping
  at the first exception.
\<close>

fun getBatches :: "'a filesystem \<Rightarrow> nat \<Rightarrow> 'a trainDataGenerator \<Rightarrow> ((error + 'a trainData list) \<times> 'a trainDataGenerator) option" where
  "getBatches fs 0 s = Some (Inr [], s)"
| "getBatches fs (Suc k) s =
     (case getBatch fs s of
        None \<Rightarrow> None
      | Some (Inl e, s1) \<Rightarrow> Some (Inl e, s1)
      | Some (Inr batch, s1) \<Rightarrow>
          (case getBatches fs k s1 of
             None \<Rightarrow> None
           | Some (Inl e, s2) \<Rightarrow> Some (Inl e, s2)
           | Some (Inr batches, s2) \<Rightarrow> Some (Inr (batch # batches), s2)))"

text \<open>
  The values of \<open>lastBatch()\<close> that a caller sees after each of \<open>k\<close> successful calls
  of \<open>getBatch\<close>.
\<close>

fun lastBatch_after :: "'a filesystem \<Rightarrow> nat \<Rightarrow> 'a trainDataGenerator \<Rightarrow> bool list option" where
  "lastBatch_after fs 0 s = Some []"
| "lastBatch_after fs (Suc k) s =
     (case getBatch fs s of
        Some (Inr batch, s1) \<Rightarrow> map_option (\<lambda>seen. lastBatch s1 # seen) (lastBatch_after fs k s1)
      | _ \<Rightarrow> None)"

text \<open>
  The file orders of successive epochs: one call of \<open>shuffleFilelist\<close> for each value
  that \<open>std::random_device\<close> hands out.
\<close>

fun shuffle_orders :: "(32 word \<Rightarrow> nat \<Rightarrow> nat) \<Rightarrow> 32 word list \<Rightarrow> 'a trainDataGenerator \<Rightarrow> string list list" where
  "shuffle_orders mt [] s = []"
| "shuffle_orders mt (rd # rds) s =
     (let s1 = shuffleFilelist mt rd s in shuffled_infiles s1 # shuffle_orders mt rds s1)"

text \<open>
  The orders as the specification words them: a shuffle for every epoch, each by a
  generator seeded with a counter that goes up by one with every call.
\<close>

fun seeded_orders :: "(32 word \<Rightarrow> nat \<Rightarrow> nat) \<Rightarrow> nat \<Rightarrow> 32 word \<Rightarrow> string list \<Rightarrow> string list list" where
  "seeded_orders mt 0 counter files = []"
| "seeded_orders mt (Suc n) counter files =
     (let shuffled = std_shuffle (mt counter) files
      in shuffled # seeded_orders mt n (counter + 1) shuffled)"

text \<open>
  The public member functions as calls, and the object after a call, whether the call
  returned or threw. \<open>None\<close> is a call that never returns. A run goes on also after a
  call that has ended the process or whose behaviour is undefined, so that the states
  of the runs include every state that the program can reach.
\<close>

datatype call =
    SetFileList "string list"
  | SetBatchSize size_t
  | SetFileTimeout size_t
  | EnableThreading bool
  | PrepareNextEpoch "32 word"
  | End
  | GetBatch

fun exec :: "(32 word \<Rightarrow> nat \<Rightarrow> nat) \<Rightarrow> 'a filesystem \<Rightarrow> call \<Rightarrow> 'a trainDataGenerator \<Rightarrow> 'a trainDataGenerator option" where
  "exec mt fs (SetFileList files) s = Some (snd (setFileList fs files s))"
| "exec mt fs (SetBatchSize n) s = Some (snd (setBatchSize n s))"
| "exec mt fs (SetFileTimeout seconds) s = Some (setFileTimeout seconds s)"
| "exec mt fs (EnableThreading en) s = Some (enableThreading en s)"
| "exec mt fs (PrepareNextEpoch rd) s = map_option snd (prepareNextEpoch mt rd fs s)"
| "exec mt fs End s = map_option snd (end_generator s)"
| "exec mt fs GetBatch s = map_option snd (getBatch fs s)"

fun run :: "(32 word \<Rightarrow> nat \<Rightarrow> nat) \<Rightarrow> ('a filesystem \<times> call) list \<Rightarrow> 'a trainDataGenerator \<Rightarrow> 'a trainDataGenerator option" where
  "run mt [] s = Some s"
| "run mt ((fs, c) # rest) s =
     (case exec mt fs c s of None \<Rightarrow> None | Some s1 \<Rightarrow> run mt rest s1)"

text \<open>
  Two objects that agree on the file lists, the seed counter and the counters that only
  \<open>setFileList\<close>, \<open>setBatchSize\<close>, \<open>setFileTimeout\<close>, \<open>prepareNextEpoch\<close> and the end of
  \<open>prepareBatch\<close> assign.
\<close>

definition same_config :: "'a trainDataGenerator \<Rightarrow> 'a trainDataGenerator \<Rightarrow> bool" where
  "same_config s s' \<longleftrightarrow>
     orig_infiles s' = orig_infiles s \<and> shuffled_infiles s' = shuffled_infiles s \<and>
     randomcount s' = randomcount s \<and> batchsize s' = batchsize s \<and>
     nbatches s' = nbatches s \<and> ntotal s' = ntotal s \<and>
     nsamplesprocessed s' = nsamplesprocessed s \<and> lastbatchsize s' = lastbatchsize s \<and>
     filetimeout s' = filetimeout s"

subsection \<open>Two files for the examples\<close>

text \<open>
  File \<open>A\<close> holds two samples and file \<open>B\<close> holds one; both are read at the first
  attempt. \<open>keep_order\<close> is an engine whose draws make the shuffle leave every list as
  it is.
\<close>

definition two_files :: "string filesystem" where
  "two_files = \<lparr> featureShapes = (\<lambda>f. if f = ''A'' then [[2]] else [[1]]),
                 probe = (\<lambda>f k. if f = ''A'' then Readable [''a1'', ''a2'']
                                else Readable [''b1'']) \<rparr>"

definition keep_order :: "32 word \<Rightarrow> nat \<Rightarrow> nat" where
  "keep_order sd k = k"

text \<open>
  An engine whose draws depend on its seed: seeded with 1 they make the shuffle leave
  every list as it is, seeded with another value they are all 0.
\<close>

definition seed_draws :: "32 word \<Rightarrow> nat \<Rightarrow> nat" where
  "seed_draws sd k = (if unat sd = 1 then k else 0)"

text \<open>
  Two fresh generators with the files \<open>A\<close>, \<open>B\<close>, \<open>C\<close> as their shuffled list, the
  second with another batch size.
\<close>

definition fresh_ABC :: "string trainDataGenerator" where
  "fresh_ABC = init\<lparr>shuffled_infiles := [''A'', ''B'', ''C'']\<rparr>"

definition fresh_ABC_9 :: "string trainDataGenerator" where
  "fresh_ABC_9 = init\<lparr>shuffled_infiles := [''A'', ''B'', ''C''], batchsize := 9\<rparr>"

text \<open>
  The generator after \<open>setFileList\<close> on \<open>A\<close> and \<open>B\<close>, \<open>setBatchSize(1)\<close> and
  the first \<open>prepareNextEpoch\<close> with \<open>keep_order\<close>: the worker that loads \<open>A\<close> is
  running.
\<close>

definition epoch_AB :: "string trainDataGenerator" where
  "epoch_AB = \<lparr> debug = False, orig_infiles = [''A'', ''B''],
                shuffled_infiles = [''A'', ''B''], randomcount = 2, batchsize = 1,
                buffer_store = [], buffer_read = [],
                readthread = Running (Loaded [''a1'', ''a2'']),
                nextread = ''A'', filecount = 0, nbatches = 3, ntotal = 3,
                nsamplesprocessed = 0, lastbatchsize = 0, filetimeout = 10,
                threading = True \<rparr>"



text \<open>The same with \<open>setFileList\<close> on \<open>A\<close> alone.\<close>

definition epoch_A :: "string trainDataGenerator" where
  "epoch_A = \<lparr> debug = False, orig_infiles = [''A''],
               shuffled_infiles = [''A''], randomcount = 2, batchsize = 1,
               buffer_store = [], buffer_read = [],
               readthread = Running (Loaded [''a1'', ''a2'']),
               nextread = ''A'', filecount = 0, nbatches = 2, ntotal = 2,
               nsamplesprocessed = 0, lastbatchsize = 0, filetimeout = 10,
               threading = True \<rparr>"

text \<open>
  The generator at the begin of its second epoch on \<open>B\<close> alone with batch size 1: after
  \<open>setFileList\<close>, \<open>setBatchSize(1)\<close>, \<open>prepareNextEpoch\<close>, one \<open>getBatch\<close> and
  \<open>prepareNextEpoch\<close> again.
\<close>

definition second_epoch_B :: "string trainDataGenerator" where
  "second_epoch_B = \<lparr> debug = False, orig_infiles = [''B''],
                      shuffled_infiles = [''B''], randomcount = 3, batchsize = 1,
                      buffer_store = [], buffer_read = [],
                      readthread = Running (Loaded [''b1'']),
                      nextread = ''B'', filecount = 0, nbatches = 1, ntotal = 1,
                      nsamplesprocessed = 0, lastbatchsize = 1, filetimeout = 10,
                      threading = True \<rparr>"

text \<open>
  The samples of a list of files one after the other, each file as the first pass of a
  load finds it.
\<close>

definition samples_in_order :: "'a filesystem \<Rightarrow> string list \<Rightarrow> 'a trainData" where
  "samples_in_order fs files =
     concat (map (\<lambda>f. case probe fs f 0 of Readable td \<Rightarrow> td | _ \<Rightarrow> []) files)"

subsection \<open>More files for the examples\<close>

text \<open>
  The files of the example of the specification: \<open>A\<close> holds 100 samples, \<open>B\<close> holds
  150, and the batch size is 100.
\<close>

definition spec_files :: "string filesystem" where
  "spec_files = \<lparr> featureShapes = (\<lambda>f. if f = ''A'' then [[100]] else [[150]]),
                  probe = (\<lambda>f k. if f = ''A'' then Readable (replicate 100 ''a'')
                                 else Readable (replicate 150 ''b'')) \<rparr>"

definition epoch_spec :: "string trainDataGenerator" where
  "epoch_spec = \<lparr> debug = False, orig_infiles = [''A'', ''B''],
                  shuffled_infiles = [''A'', ''B''], randomcount = 2, batchsize = 100,
                  buffer_store = [], buffer_read = [],
                  readthread = Running (Loaded (replicate 100 ''a'')),
                  nextread = ''A'', filecount = 0, nbatches = 2, ntotal = 250,
                  nsamplesprocessed = 0, lastbatchsize = 0, filetimeout = 10,
                  threading = True \<rparr>"

text \<open>
  Files whose first two passes fail and whose third pass reads one sample: the reads of
  \<open>G\<close> throw, every other file is absent at first.
\<close>

definition glitchy :: "string filesystem" where
  "glitchy = \<lparr> featureShapes = (\<lambda>f. [[1]]),
               probe = (\<lambda>f k. if k < 2 then (if f = ''G'' then Glitch else Absent)
                              else Readable [f]) \<rparr>"



text \<open>
  File \<open>Z\<close> reports one feature array of shape 0 by 7, that is no sample; every other
  file reports no feature array at all.
\<close>

definition empty_file :: "string filesystem" where
  "empty_file = \<lparr> featureShapes = (\<lambda>f. if f = ''Z'' then [[0, 7]] else []),
                  probe = (\<lambda>f k. Readable []) \<rparr>"

section \<open>Properties\<close>

subsection \<open>The shuffle keeps the files\<close>

lemma length_swap_at: "length (swap_at i j xs) = length xs"
  by (simp add: swap_at_def)

lemma mset_swap_at: "i < length xs \<Longrightarrow> j < length xs \<Longrightarrow> mset (swap_at i j xs) = mset xs"
  by (simp add: swap_at_def mset_swap)

lemma fold_swap_keeps:
  "\<forall>i\<in>set is. i < length xs \<Longrightarrow>
   length (fold (\<lambda>i ys. swap_at i (draw i mod Suc i) ys) is xs) = length xs \<and>
   mset (fold (\<lambda>i ys. swap_at i (draw i mod Suc i) ys) is xs) = mset xs"
proof (induction "is" arbitrary: xs)
  case Nil
  then show ?case by simp
next
  case (Cons i "is")
  have i: "i < length xs" using Cons.prems by simp
  have j: "draw i mod Suc i < length xs"
    using i by (meson less_Suc_eq_le less_le_trans mod_less_divisor not_less zero_less_Suc le_less_trans)
  have "\<forall>k\<in>set is. k < length (swap_at i (draw i mod Suc i) xs)"
    using Cons.prems by (simp add: length_swap_at)
  from Cons.IH [OF this] show ?case
    by (simp add: length_swap_at mset_swap_at [OF i j])
qed


lemma mset_std_shuffle: "mset (std_shuffle draw xs) = mset xs"
  unfolding std_shuffle_def by (rule fold_swap_keeps [THEN conjunct2]) simp

lemma shuffleFilelist_independent: "shuffleFilelist mt rd s = shuffleFilelist mt rd' s"
  by (simp add: shuffleFilelist_def seed_def)

subsection \<open>What a join and the batch loop leave alone\<close>

lemma readBuffer_fields:
  "readBuffer fs s = Some (r, s1) \<Longrightarrow> \<exists>td. s1 = s\<lparr>buffer_read := td\<rparr>"
  by (auto simp: readBuffer_def split: option.splits prod.splits)

lemma join_fields:
  "join s = Some (r, s1) \<Longrightarrow> \<exists>td. s1 = s\<lparr>buffer_read := td\<rparr>"
  by (auto simp: join_def split: thread_ptr.splits worker.splits
        intro: exI [of _ "buffer_read s"])

lemma join_delete_fields:
  "join_delete s = Some (r, s1) \<Longrightarrow> \<exists>td p. s1 = s\<lparr>buffer_read := td, readthread := p\<rparr>"
proof -
  assume a: "join_delete s = Some (r, s1)"
  show ?thesis
  proof (cases "readthread s = Null")
    case True
    with a have "s1 = s\<lparr>buffer_read := buffer_read s, readthread := readthread s\<rparr>"
      by (simp add: join_delete_def)
    then show ?thesis by blast
  next
    case False
    with a obtain r0 s0 where j: "join s = Some (r0, s0)"
      by (auto simp: join_delete_def split: option.splits)
    then obtain td where s0: "s0 = s\<lparr>buffer_read := td\<rparr>" by (auto dest: join_fields)
    show ?thesis
    proof (cases r0)
      case (Inl e)
      with a False j s0 have "s1 = s\<lparr>buffer_read := td\<rparr>"
        by (simp add: join_delete_def)
      then have "s1 = s\<lparr>buffer_read := td, readthread := readthread s\<rparr>"
        by simp
      then show ?thesis by blast
    next
      case (Inr u)
      with a False j s0 have "s1 = s\<lparr>buffer_read := td, readthread := Dangling\<rparr>"
        by (simp add: join_delete_def)
      then show ?thesis by blast
    qed
  qed
qed

lemma prepareBatch_loop_keeps:
  assumes "prepareBatch_loop fs s = Some y"
  shows "same_config s (snd y)"
proof (rule prepareBatch_loop.raw_induct [where P = "\<lambda>_ s y. same_config s (snd y)", OF _ assms], goal_cases)
  case (1 loop fs s y)
  show ?case
  proof (cases "nElements (buffer_store s) < batchsize s")
    case False
    with 1(2) show ?thesis by (auto simp: same_config_def)
  next
    case True
    then obtain r s1 where j: "join_delete s = Some (r, s1)"
      using 1(2) by (auto split: option.splits)
    then obtain td p where s1: "s1 = s\<lparr>buffer_read := td, readthread := p\<rparr>"
      by (auto dest: join_delete_fields)
    show ?thesis
    proof (cases r)
      case (Inl e)
      then show ?thesis using 1(2) True j s1 by (auto simp: same_config_def)
    next
      case (Inr u)
      from 1(2) True j Inr s1
      consider e s2 where "y = (Inl e, s2)" "same_config s s2"
        | s2 where "loop fs s2 = Some y" "same_config s s2"
        by (auto simp: Let_def same_config_def launch_def split: if_splits sum.splits)
      then show ?thesis
      proof cases
        case 1
        then show ?thesis by simp
      next
        case 2
        from \<open>\<And>s b y. loop s b = Some y \<Longrightarrow> same_config b (snd y)\<close> [OF 2(1)] 2(2)
        show ?thesis by (simp add: same_config_def)
      qed
    qed
  qed
qed

subsection \<open>A fresh generator\<close>

text \<open>
  C10. On a generator as the constructor leaves it, the processed count, the total and
  the size of the last batch are all 0, and \<open>lastBatch()\<close> is true although no batch
  has been handed out.
\<close>

theorem lastBatch_fresh:
  "nsamplesprocessed init = 0 \<and> ntotal init = 0 \<and> lastbatchsize init = 0 \<and> lastBatch init"
  by (simp add: init_def lastBatch_def)

subsection \<open>The order of the files over the epochs\<close>

lemma shuffleFilelist_fields:
  "randomcount (shuffleFilelist mt rd s) = randomcount s + 1"
  "shuffled_infiles (shuffleFilelist mt rd s) =
     std_shuffle (mt (randomcount s)) (shuffled_infiles s)"
  "orig_infiles (shuffleFilelist mt rd s) = orig_infiles s"
  by (simp_all add: shuffleFilelist_def seed_def)

lemma shuffle_orders_seeded:
  "shuffle_orders mt rds s = seeded_orders mt (length rds) (randomcount s) (shuffled_infiles s)"
  by (induction rds arbitrary: s) (simp_all add: Let_def shuffleFilelist_fields)

lemma shuffle_orders_deterministic:
  "length rds = length rds' \<Longrightarrow> randomcount s = randomcount s' \<Longrightarrow>
   shuffled_infiles s = shuffled_infiles s' \<Longrightarrow>
   shuffle_orders mt rds s = shuffle_orders mt rds' s'"
  by (simp add: shuffle_orders_seeded)

lemma randomcount_after_shuffles:
  "randomcount (fold (shuffleFilelist mt) rds s) = randomcount s + of_nat (length rds)"
  by (induction rds arbitrary: s) (simp_all add: shuffleFilelist_fields)

lemma sint_increment:
  fixes c :: "32 word"
  assumes "sint c < 2 ^ 31 - 1"
  shows "sint (c + 1) = sint c + 1"
proof -
  have "- (2 ^ 31) \<le> sint c" using sint_ge [of c] by simp
  with assms show ?thesis
    by (simp add: sint_word_ariths signed_take_bit_int_eq_self)
qed

text \<open>
  The order of the files and the seed counter after a \<open>prepareNextEpoch\<close> that returns
  are those of its call of \<open>shuffleFilelist\<close>.
\<close>

lemma prepareNextEpoch_shuffles:
  assumes "prepareNextEpoch mt rd fs s = Some (Inr u, s')"
  shows "shuffled_infiles s' = shuffled_infiles (shuffleFilelist mt rd s)"
    and "randomcount s' = randomcount (shuffleFilelist mt rd s)"
proof -
  from assms obtain r1 s1 where j: "join_delete s = Some (r1, s1)"
    by (auto simp: prepareNextEpoch_def split: option.splits)
  then obtain td p where s1: "s1 = s\<lparr>buffer_read := td, readthread := p\<rparr>"
    by (auto dest: join_delete_fields)
  from assms j s1 show "shuffled_infiles s' = shuffled_infiles (shuffleFilelist mt rd s)"
    by (cases r1)
       (auto simp: prepareNextEpoch_def Let_def launch_def shuffleFilelist_fields split: sum.splits)
  from assms j s1 show "randomcount s' = randomcount (shuffleFilelist mt rd s)"
    by (cases r1)
       (auto simp: prepareNextEpoch_def Let_def launch_def shuffleFilelist_fields split: sum.splits)
qed

text \<open>
  C6. The seed counter starts at 1 and every call of \<open>shuffleFilelist\<close> adds one to
  it, in the arithmetic of a 32-bit \<open>int\<close>. The call seeds the engine with the counter:
  the new order is the shuffle of the current list with the draws of an engine seeded
  with the counter, whatever value \<open>std::random_device\<close> has handed out. So the orders
  of the epochs are those of \<open>seeded_orders\<close>, which follows the counter from its first
  value, and two generators with the same counter and the same list produce the same
  orders in all their epochs, whatever entropy each of them draws. A
  \<open>prepareNextEpoch\<close> that returns has shuffled and counted in this way.
\<close>

theorem shuffle_deterministic:
  assumes "randomcount s = randomcount s'"
    and "shuffled_infiles s = shuffled_infiles s'"
    and "length rds = length rds'"
  shows "randomcount init = 1
       \<and> randomcount (shuffleFilelist mt rd s) = randomcount s + 1
       \<and> (sint (randomcount s) < 2 ^ 31 - 1 \<longrightarrow>
            sint (randomcount (shuffleFilelist mt rd s)) = sint (randomcount s) + 1)
       \<and> shuffled_infiles (shuffleFilelist mt rd s)
            = std_shuffle (mt (randomcount s)) (shuffled_infiles s)
       \<and> shuffled_infiles (shuffleFilelist mt rd s) = shuffled_infiles (shuffleFilelist mt rd' s')
       \<and> shuffle_orders mt rds s
            = seeded_orders mt (length rds) (randomcount s) (shuffled_infiles s)
       \<and> shuffle_orders mt rds s = shuffle_orders mt rds' s'
       \<and> (\<forall>fs u t. prepareNextEpoch mt rd fs s = Some (Inr u, t) \<longrightarrow>
            shuffled_infiles t = std_shuffle (mt (randomcount s)) (shuffled_infiles s)
            \<and> randomcount t = randomcount s + 1)"
proof -
  have epoch: "shuffled_infiles t = std_shuffle (mt (randomcount s)) (shuffled_infiles s)
            \<and> randomcount t = randomcount s + 1"
    if "prepareNextEpoch mt rd fs s = Some (Inr u, t)" for fs u t
    using prepareNextEpoch_shuffles [OF that] by (simp add: shuffleFilelist_fields)
  have count: "sint (randomcount (shuffleFilelist mt rd s)) = sint (randomcount s) + 1"
    if "sint (randomcount s) < 2 ^ 31 - 1"
    using sint_increment [OF that] by (simp add: shuffleFilelist_fields)
  from assms epoch count shuffle_orders_deterministic [of rds rds' s s' mt]
  show ?thesis
    by (simp add: init_def shuffleFilelist_fields shuffle_orders_seeded)
qed

text \<open>
  An instance with an engine whose draws depend on its seed: two generators with the
  counter at 1 and the list \<open>A\<close>, \<open>B\<close>, \<open>C\<close>, different batch sizes and different
  entropy. Both keep \<open>A\<close>, \<open>B\<close>, \<open>C\<close> with the seed 1 and then shuffle to \<open>C\<close>, \<open>A\<close>,
  \<open>B\<close> with the seed 2.
\<close>

theorem shuffle_deterministic_witness:
  "randomcount fresh_ABC = randomcount fresh_ABC_9
   \<and> shuffled_infiles fresh_ABC = shuffled_infiles fresh_ABC_9
   \<and> length [5, 6 :: 32 word] = length [7, 8 :: 32 word]
   \<and> shuffle_orders seed_draws [5, 6] fresh_ABC = shuffle_orders seed_draws [7, 8] fresh_ABC_9
   \<and> shuffle_orders seed_draws [5, 6] fresh_ABC
     = [[''A'', ''B'', ''C''], [''C'', ''A'', ''B'']]
   \<and> seeded_orders seed_draws (length [5, 6 :: 32 word]) 1 [''A'', ''B'', ''C'']
     = [[''A'', ''B'', ''C''], [''C'', ''A'', ''B'']]
   \<and> sint (randomcount (shuffleFilelist seed_draws 5 fresh_ABC)) = 2"
proof -
  have c: "randomcount fresh_ABC = randomcount fresh_ABC_9"
    and l: "shuffled_infiles fresh_ABC = shuffled_infiles fresh_ABC_9"
    and n: "length [5, 6 :: 32 word] = length [7, 8 :: 32 word]"
    by (simp_all add: init_def fresh_ABC_def fresh_ABC_9_def)
  have o: "shuffle_orders seed_draws [5, 6] fresh_ABC
      = [[''A'', ''B'', ''C''], [''C'', ''A'', ''B'']]"
    by (simp add: init_def fresh_ABC_def shuffleFilelist_def seed_def std_shuffle_def swap_at_def
          Let_def upt_rec seed_draws_def)
  have one: "randomcount fresh_ABC = 1" and fl: "shuffled_infiles fresh_ABC = [''A'', ''B'', ''C'']"
    by (simp_all add: init_def fresh_ABC_def)
  have small: "sint (randomcount fresh_ABC) < 2 ^ 31 - 1" by (simp add: one)
  note t = shuffle_deterministic [where s = fresh_ABC and s' = fresh_ABC_9 and rds = "[5, 6]"
      and rds' = "[7, 8]" and mt = seed_draws and rd = 5 and rd' = 7, OF c l n]
  from t have same: "shuffle_orders seed_draws [5, 6] fresh_ABC
      = shuffle_orders seed_draws [7, 8] fresh_ABC_9"
    by blast
  from t have "shuffle_orders seed_draws [5, 6] fresh_ABC
      = seeded_orders seed_draws (length [5, 6 :: 32 word]) (randomcount fresh_ABC)
          (shuffled_infiles fresh_ABC)"
    by blast
  with o have sd: "seeded_orders seed_draws (length [5, 6 :: 32 word]) 1 [''A'', ''B'', ''C'']
      = [[''A'', ''B'', ''C''], [''C'', ''A'', ''B'']]"
    by (simp only: one fl)
  from t small have "sint (randomcount (shuffleFilelist seed_draws 5 fresh_ABC))
      = sint (randomcount fresh_ABC) + 1"
    by blast
  then have cnt: "sint (randomcount (shuffleFilelist seed_draws 5 fresh_ABC)) = 2"
    by (simp add: one)
  from c l n same o sd cnt show ?thesis by (intro conjI)
qed

subsection \<open>The file lists under the public calls\<close>

lemma readNTotal_lists:
  "orig_infiles (snd (readNTotal fs s)) = orig_infiles s"
  "shuffled_infiles (snd (readNTotal fs s)) = shuffled_infiles s"
  by (simp_all add: readNTotal_def split: prod.splits option.splits)

lemma setFileList_lists:
  "orig_infiles (snd (setFileList fs files s)) = files"
  "shuffled_infiles (snd (setFileList fs files s)) = files"
  by (simp_all add: setFileList_def readNTotal_lists)

lemma setBatchSize_lists:
  "orig_infiles (snd (setBatchSize n s)) = orig_infiles s"
  "shuffled_infiles (snd (setBatchSize n s)) = shuffled_infiles s"
  by (simp_all add: setBatchSize_def)

lemma prepareNextEpoch_lists:
  assumes "prepareNextEpoch mt rd fs s = Some (r, s')"
  shows "orig_infiles s' = orig_infiles s"
    and "mset (shuffled_infiles s') = mset (shuffled_infiles s)"
proof -
  from assms obtain r1 s1 where j: "join_delete s = Some (r1, s1)"
    by (auto simp: prepareNextEpoch_def split: option.splits)
  then obtain td p where s1: "s1 = s\<lparr>buffer_read := td, readthread := p\<rparr>"
    by (auto dest: join_delete_fields)
  from assms j s1 show "orig_infiles s' = orig_infiles s"
    by (cases r1)
       (auto simp: prepareNextEpoch_def Let_def launch_def shuffleFilelist_fields split: sum.splits)
  from assms j s1 show "mset (shuffled_infiles s') = mset (shuffled_infiles s)"
    by (cases r1)
       (auto simp: prepareNextEpoch_def Let_def launch_def shuffleFilelist_fields mset_std_shuffle
          split: sum.splits)
qed

lemma end_generator_lists:
  assumes "end_generator s = Some (r, s')"
  shows "orig_infiles s' = orig_infiles s \<and> shuffled_infiles s' = shuffled_infiles s"
proof -
  from assms obtain r1 s1 where j: "join_delete s = Some (r1, s1)"
    by (auto simp: end_generator_def split: option.splits)
  then obtain td p where "s1 = s\<lparr>buffer_read := td, readthread := p\<rparr>"
    by (auto dest: join_delete_fields)
  with assms j show ?thesis
    by (cases r1) (auto simp: end_generator_def)
qed

lemma getBatch_keeps:
  assumes "getBatch fs s = Some (r, s')"
  shows "orig_infiles s' = orig_infiles s \<and> shuffled_infiles s' = shuffled_infiles s \<and>
         randomcount s' = randomcount s \<and> batchsize s' = batchsize s \<and>
         nbatches s' = nbatches s \<and> ntotal s' = ntotal s \<and> filetimeout s' = filetimeout s"
proof -
  from assms obtain r1 s1 where l: "prepareBatch_loop fs s = Some (r1, s1)"
    by (auto simp: getBatch_def prepareBatch_def split: option.splits)
  from prepareBatch_loop_keeps [OF l] have "same_config s s1" by simp
  with assms l show ?thesis
    by (cases r1) (auto simp: getBatch_def prepareBatch_def same_config_def split: prod.splits)
qed

lemma exec_keeps_permutation:
  assumes "exec mt fs c s = Some s'"
    and "mset (shuffled_infiles s) = mset (orig_infiles s)"
  shows "mset (shuffled_infiles s') = mset (orig_infiles s')"
proof (cases c)
  case (SetFileList files)
  with assms show ?thesis by (auto simp: setFileList_lists)
next
  case (SetBatchSize n)
  with assms show ?thesis by (auto simp: setBatchSize_lists)
next
  case (SetFileTimeout t)
  with assms show ?thesis by (auto simp: setFileTimeout_def)
next
  case (EnableThreading en)
  with assms show ?thesis by (auto simp: enableThreading_def)
next
  case (PrepareNextEpoch rd)
  with assms obtain r where "prepareNextEpoch mt rd fs s = Some (r, s')" by auto
  from prepareNextEpoch_lists [OF this] assms(2) show ?thesis by simp
next
  case End
  with assms obtain r where "end_generator s = Some (r, s')" by auto
  from end_generator_lists [OF this] assms(2) show ?thesis by simp
next
  case GetBatch
  with assms obtain r where "getBatch fs s = Some (r, s')" by auto
  from getBatch_keeps [OF this] assms(2) show ?thesis by simp
qed

lemma run_keeps_permutation:
  "run mt steps s = Some s' \<Longrightarrow> mset (shuffled_infiles s) = mset (orig_infiles s) \<Longrightarrow>
   mset (shuffled_infiles s') = mset (orig_infiles s')"
proof (induction steps arbitrary: s)
  case Nil
  then show ?case by simp
next
  case (Cons step steps)
  obtain fs c where step: "step = (fs, c)" by (cases step)
  with Cons.prems obtain s1 where e: "exec mt fs c s = Some s1" and r: "run mt steps s1 = Some s'"
    by (auto split: option.splits)
  from Cons.IH [OF r exec_keeps_permutation [OF e Cons.prems(2)]] show ?case .
qed

lemma exec_keeps_lists:
  assumes "exec mt fs c s = Some s'"
  shows "(\<forall>files. c \<noteq> SetFileList files) \<longrightarrow> orig_infiles s' = orig_infiles s"
    and "(\<forall>files. c \<noteq> SetFileList files) \<and> (\<forall>rd. c \<noteq> PrepareNextEpoch rd) \<longrightarrow>
           shuffled_infiles s' = shuffled_infiles s"
  using assms
  by (cases c; auto simp: setBatchSize_lists setFileTimeout_def enableThreading_def
        dest: prepareNextEpoch_lists end_generator_lists getBatch_keeps)+

text \<open>
  C7. In every state that a sequence of calls reaches from a fresh generator, and in
  the state after one more call, the shuffled file list has the same files as the
  original list, each as often. A call other than \<open>setFileList\<close> leaves the original
  list as it is, and a call other than \<open>setFileList\<close> and \<open>prepareNextEpoch\<close>
  (\<open>getBatch\<close>, \<open>setBatchSize\<close>, \<open>setFileTimeout\<close>, \<open>enableThreading\<close>, \<open>end\<close>) leaves
  the shuffled list as it is. This holds whether the calls return or throw.
\<close>
theorem shuffled_is_permutation:
  assumes "run mt steps init = Some s"
    and "exec mt fs c s = Some s'"
  shows "mset (shuffled_infiles s) = mset (orig_infiles s)
       \<and> mset (shuffled_infiles s') = mset (orig_infiles s')
       \<and> ((\<forall>files. c \<noteq> SetFileList files) \<longrightarrow> orig_infiles s' = orig_infiles s)
       \<and> ((\<forall>files. c \<noteq> SetFileList files) \<and> (\<forall>rd. c \<noteq> PrepareNextEpoch rd) \<longrightarrow>
             shuffled_infiles s' = shuffled_infiles s)"
proof -
  have "mset (shuffled_infiles (init :: 'a trainDataGenerator)) = mset (orig_infiles (init :: 'a trainDataGenerator))"
    by (simp add: init_def)
  from run_keeps_permutation [OF assms(1) this]
  have inv: "mset (shuffled_infiles s) = mset (orig_infiles s)" .
  from inv exec_keeps_permutation [OF assms(2) inv] exec_keeps_lists [OF assms(2)]
  show ?thesis by blast
qed

subsection \<open>The batch loop and the counters\<close>

lemma prepareBatch_loop_spins:
  assumes "nElements (buffer_store s) < batchsize s"
    and "readthread s = Null"
    and "buffer_read s = []"
    and "\<not> nsamplesprocessed s + nElements (buffer_store s) < ntotal s"
  shows "prepareBatch_loop fs s = None"
proof (rule ccontr)
  assume "prepareBatch_loop fs s \<noteq> None"
  then obtain y where y: "prepareBatch_loop fs s = Some y" by auto
  let ?stuck = "\<lambda>s. nElements (buffer_store s) < batchsize s \<and> readthread s = Null \<and>
     buffer_read s = [] \<and> \<not> nsamplesprocessed s + nElements (buffer_store s) < ntotal s"
  have "\<not> ?stuck s"
  proof (rule prepareBatch_loop.raw_induct [where P = "\<lambda>_ s y. \<not> ?stuck s", OF _ y], goal_cases)
    case (1 loop fs s y)
    show ?case
    proof
      assume st: "?stuck s"
      then have same: "s\<lparr>readthread := Null,
                         buffer_store := append_trainData (buffer_store s) (buffer_read s),
                         buffer_read := clear_trainData (buffer_read s)\<rparr> = s"
        by (simp add: append_trainData_def clear_trainData_def)
      from st have j: "join_delete s = Some (Inr (), s)" by (simp add: join_delete_def)
      from st have c1: "(nElements (buffer_store s) < batchsize s) = True"
        and c2: "(nsamplesprocessed s + nElements (buffer_store s) < ntotal s) = False"
        by simp_all
      from 1(2) have "loop fs s = Some y"
        by (simp only: j option.case prod.case sum.case Let_def same c1 c2 if_True if_False)
      from 1(1) [OF this] st show False by simp
    qed
  qed
  with assms show False by simp
qed

lemma prepareBatch_loop_exit:
  assumes "prepareBatch_loop fs s = Some (Inr u, s')"
  shows "\<not> nElements (buffer_store s') < batchsize s'"
proof -
  have "\<forall>u s'. y = (Inr u, s') \<longrightarrow> \<not> nElements (buffer_store s') < batchsize s'"
    if "prepareBatch_loop fs s = Some y" for y
  proof (rule prepareBatch_loop.raw_induct
      [where P = "\<lambda>_ s y. \<forall>u s'. y = (Inr u, s') \<longrightarrow> \<not> nElements (buffer_store s') < batchsize s'", OF _ that],
      goal_cases)
    case (1 loop fs s y)
    show ?case
    proof (cases "nElements (buffer_store s) < batchsize s")
      case False
      with 1(2) show ?thesis by auto
    next
      case True
      with 1(2) obtain r s1 where j: "join_delete s = Some (r, s1)"
        by (auto split: option.splits)
      show ?thesis
      proof (cases r)
        case (Inl e)
        with 1(2) True j show ?thesis by auto
      next
        case (Inr v)
        from 1(2) True j Inr
        consider e s2 where "y = (Inl e, s2)" | s2 where "loop fs s2 = Some y"
          by (auto simp: Let_def split: if_splits sum.splits)
        then show ?thesis
        proof cases
          case 1
          then show ?thesis by simp
        next
          case 2
          from \<open>\<And>s b y. loop s b = Some y \<Longrightarrow> \<forall>u s'. y = (Inr u, s') \<longrightarrow> \<not> nElements (buffer_store s') < batchsize s'\<close> [OF 2]
          show ?thesis .
        qed
      qed
    qed
  qed
  with assms show ?thesis by blast
qed


lemma getBatch_counters:
  assumes "getBatch fs s = Some (Inr batch, s')"
  shows "nsamplesprocessed s' = nsamplesprocessed s + batchsize s"
    and "lastbatchsize s' = batchsize s"
    and "ntotal s' = ntotal s"
    and "batchsize s' = batchsize s"
proof -
  from assms obtain r1 s1 where l: "prepareBatch_loop fs s = Some (r1, s1)"
    by (auto simp: getBatch_def prepareBatch_def split: option.splits)
  from prepareBatch_loop_keeps [OF l] have k: "same_config s s1" by simp
  from assms l k show "nsamplesprocessed s' = nsamplesprocessed s + batchsize s"
    by (cases r1) (auto simp: getBatch_def prepareBatch_def same_config_def split: prod.splits)
  from assms l k show "lastbatchsize s' = batchsize s"
    by (cases r1) (auto simp: getBatch_def prepareBatch_def same_config_def split: prod.splits)
  from assms l k show "ntotal s' = ntotal s"
    by (cases r1) (auto simp: getBatch_def prepareBatch_def same_config_def split: prod.splits)
  from assms l k show "batchsize s' = batchsize s"
    by (cases r1) (auto simp: getBatch_def prepareBatch_def same_config_def split: prod.splits)
qed

lemma getBatch_size:
  assumes "getBatch fs s = Some (Inr batch, s')"
    and "length batch + length (buffer_store s') < 2 ^ 64"
  shows "length batch = unat (batchsize s)"
proof -
  from assms(1) obtain r1 s1 where l: "prepareBatch_loop fs s = Some (r1, s1)"
    by (auto simp: getBatch_def prepareBatch_def split: option.splits)
  from assms(1) l obtain u where r1: "r1 = Inr u"
    by (cases r1) (auto simp: getBatch_def prepareBatch_def)
  from prepareBatch_loop_keeps [OF l] have k: "batchsize s1 = batchsize s"
    by (simp add: same_config_def)
  from assms(1) l r1 k have b: "batch = take (unat (batchsize s)) (buffer_store s1)"
    and r: "buffer_store s' = drop (unat (batchsize s)) (buffer_store s1)"
    by (auto simp: getBatch_def prepareBatch_def split_trainData_def)
  from b r have "length (buffer_store s1) = length batch + length (buffer_store s')"
    by simp
  with assms(2) have small: "length (buffer_store s1) < 2 ^ 64" by simp
  from prepareBatch_loop_exit [OF l [unfolded r1]] k
  have "batchsize s \<le> of_nat (length (buffer_store s1))"
    by (simp add: nElements_def not_less)
  then have "unat (batchsize s) \<le> unat (of_nat (length (buffer_store s1)) :: size_t)"
    by (simp add: word_le_nat_alt)
  also from small have "unat (of_nat (length (buffer_store s1)) :: size_t) = length (buffer_store s1)"
    by (simp add: unat_of_nat)
  finally show ?thesis using b by simp
qed

lemma getBatches_counters:
  "getBatches fs k s = Some (Inr batches, s') \<Longrightarrow>
   nsamplesprocessed s' = nsamplesprocessed s + of_nat k * batchsize s \<and>
   (0 < k \<longrightarrow> lastbatchsize s' = batchsize s) \<and>
   ntotal s' = ntotal s \<and> batchsize s' = batchsize s \<and> length batches = k"
proof (induction k arbitrary: s batches)
  case 0
  then show ?case by simp
next
  case (Suc k)
  from Suc.prems obtain batch s1 rest where
    g: "getBatch fs s = Some (Inr batch, s1)" and
    gs: "getBatches fs k s1 = Some (Inr rest, s')" and
    bs: "batches = batch # rest"
    by (auto split: option.splits sum.splits prod.splits)
  note c = getBatch_counters [OF g]
  from Suc.IH [OF gs] c bs gs show ?case
    by (cases k) (auto simp: algebra_simps)
qed


lemma prepareNextEpoch_returns:
  assumes "prepareNextEpoch mt rd fs s = Some (Inr u, s')"
  shows "\<exists>s1 f. join_delete s = Some (Inr (), s1) \<and>
           at (std_shuffle (mt (randomcount s)) (shuffled_infiles s)) 0 = Inr f \<and>
           s' = launch fs
                  (s1\<lparr>buffer_store := [], buffer_read := [], filecount := 0,
                      nsamplesprocessed := 0, randomcount := randomcount s + 1,
                      shuffled_infiles := std_shuffle (mt (randomcount s)) (shuffled_infiles s),
                      nextread := f\<rparr>)"
proof -
  from assms obtain r1 s1 where j: "join_delete s = Some (r1, s1)"
    by (auto simp: prepareNextEpoch_def split: option.splits)
  then obtain td p where s1: "s1 = s\<lparr>buffer_read := td, readthread := p\<rparr>"
    by (auto dest: join_delete_fields)
  from assms j obtain v where r1: "r1 = Inr v"
    by (cases r1) (auto simp: prepareNextEpoch_def)
  from assms j r1 s1 show ?thesis
    by (auto simp: prepareNextEpoch_def Let_def shuffleFilelist_def seed_def clear_trainData_def
             split: sum.splits)
qed

lemma prepareNextEpoch_resets:
  assumes "prepareNextEpoch mt rd fs s = Some (Inr u, s')"
  shows "nsamplesprocessed s' = 0" and "filecount s' = 0"
    and "buffer_store s' = []" and "buffer_read s' = []"
  using prepareNextEpoch_returns [OF assms] by (auto simp: launch_def)

lemma lastBatch_after_k:
  fixes s s' :: "'a trainDataGenerator"
  assumes z: "nsamplesprocessed s = 0"
    and g: "getBatches fs k s = Some (Inr batches, s')"
    and k0: "0 < k"
    and kn: "k \<le> unat (ntotal s) div unat (batchsize s)"
  shows "lastBatch s' \<longleftrightarrow> unat (ntotal s) \<le> (k + 1) * unat (batchsize s)"
proof -
  let ?B = "unat (batchsize s)" and ?T = "unat (ntotal s)"
  from getBatches_counters [OF g] z k0
  have p: "nsamplesprocessed s' = of_nat k * batchsize s"
    and l: "lastbatchsize s' = batchsize s" and t: "ntotal s' = ntotal s"
    by simp_all
  from k0 kn have Bpos: "0 < ?B" by (cases "?B = 0") simp_all
  from kn Bpos have kB: "k * ?B \<le> ?T"
    by (simp add: less_eq_div_iff_mult_less_eq)
  have T64: "?T < 2 ^ 64" using unsigned_less [of "ntotal s"] by simp
  from kB T64 have kB64: "k * ?B < 2 ^ 64" by simp
  from kB64 Bpos have k64: "k < 2 ^ 64"
    by (metis One_nat_def Suc_leI le_less_trans mult.right_neutral mult_le_mono2)
  have uk: "unat (of_nat k :: size_t) = k" using k64 by (simp add: unat_of_nat)
  have up: "unat (nsamplesprocessed s') = k * ?B"
    unfolding p using kB64 uk unat_mult_lem [of "of_nat k :: size_t" "batchsize s"] by simp
  from k0 kB have BT: "?B \<le> ?T"
    by (metis One_nat_def Suc_leI le_trans mult.left_neutral mult_le_mono1)
  then have "batchsize s \<le> ntotal s" by (simp add: word_le_nat_alt)
  then have us: "unat (ntotal s - batchsize s) = ?T - ?B" by (rule unat_sub)
  have "lastBatch s' \<longleftrightarrow> ?T - ?B \<le> k * ?B"
    by (simp add: lastBatch_def l t word_le_nat_alt us up)
  also have "\<dots> \<longleftrightarrow> ?T \<le> (k + 1) * ?B" using BT by auto
  finally show ?thesis .
qed

subsection \<open>The examples, evaluated\<close>

lemmas run_defs = setFileList_def readNTotal_def setBatchSize_def prepareNextEpoch_def
  shuffleFilelist_def seed_def mt19937_def std_shuffle_def swap_at_def init_def
  no_features_def

lemmas load_defs = join_def join_delete_def launch_def worker_of_def readBuffer_def
  readBuffer_loop.simps nElements_def
  append_trainData_def clear_trainData_def split_trainData_def at_def Let_def
  getBatch_def prepareBatch_def

lemma epoch_AB_reached:
  "run keep_order [(two_files, SetFileList [''A'', ''B'']), (two_files, SetBatchSize 1),
                   (two_files, PrepareNextEpoch rd)] init = Some epoch_AB"
  by (simp add: run_defs load_defs two_files_def keep_order_def epoch_AB_def)

lemma epoch_A_reached:
  "run keep_order [(two_files, SetFileList [''A'']), (two_files, SetBatchSize 1),
                   (two_files, PrepareNextEpoch rd)] init = Some epoch_A"
  by (simp add: run_defs load_defs two_files_def keep_order_def epoch_A_def)

lemma second_epoch_B_reached:
  "run keep_order [(two_files, SetFileList [''B'']), (two_files, SetBatchSize 1),
                   (two_files, PrepareNextEpoch rd), (two_files, GetBatch),
                   (two_files, PrepareNextEpoch rd')] init = Some second_epoch_B"
  apply (simp add: run_defs load_defs two_files_def keep_order_def second_epoch_B_def)
  apply (simp add: run_defs load_defs two_files_def keep_order_def | subst prepareBatch_loop.simps)+
  done

text \<open>
  An instance of the invariant of the file lists: three calls reach the begun epoch on
  \<open>A\<close> and \<open>B\<close>, and a call of \<open>getBatch\<close> there leaves both lists alone.
\<close>

theorem shuffled_is_permutation_witness:
  "run keep_order [(two_files, SetFileList [''A'', ''B'']), (two_files, SetBatchSize 1),
                   (two_files, PrepareNextEpoch 0)] init = Some epoch_AB
   \<and> exec keep_order two_files GetBatch epoch_AB
       = Some (epoch_AB\<lparr>buffer_store := [''a2''], filecount := 1, nsamplesprocessed := 1,
                         lastbatchsize := 1\<rparr>)
   \<and> mset (shuffled_infiles epoch_AB) = mset (orig_infiles epoch_AB)
   \<and> shuffled_infiles (epoch_AB\<lparr>buffer_store := [''a2''], filecount := 1,
                                  nsamplesprocessed := 1, lastbatchsize := 1\<rparr>)
       = shuffled_infiles epoch_AB"
proof -
  have e: "exec keep_order two_files GetBatch epoch_AB
       = Some (epoch_AB\<lparr>buffer_store := [''a2''], filecount := 1, nsamplesprocessed := 1,
                         lastbatchsize := 1\<rparr>)"
    apply (simp add: epoch_AB_def)
    apply (simp add: load_defs two_files_def | subst prepareBatch_loop.simps)+
    done
  from shuffled_is_permutation [OF epoch_AB_reached e] epoch_AB_reached e
  show ?thesis by simp
qed

subsection \<open>The first file of an epoch is loaded twice\<close>

text \<open>
  In an epoch that has begun, the first pass of the loop of \<open>prepareBatch\<close> joins the
  worker that has loaded the first file of the shuffled order. When that file holds
  fewer samples than the total, the pass starts a worker with the file cursor at 1 and
  the target of the load unchanged: the first file again.
\<close>

lemma first_file_scheduled_again:
  assumes e: "prepareNextEpoch mt rd fs0 s = Some (Inr u, s1)"
    and j: "readthread s1 = Running (Loaded td)"
    and b: "0 < batchsize s1"
    and t: "nElements td < ntotal s1"
    and m: "length (shuffled_infiles s1) < 2 ^ 64"
  shows "prepareBatch_loop fs s1
           = prepareBatch_loop fs (launch fs (s1\<lparr>readthread := Null, buffer_store := td,
                                                  filecount := 1\<rparr>))"
    and "nextread s1 = hd (shuffled_infiles s1)"
proof -
  from prepareNextEpoch_returns [OF e] obtain sj f where
    f: "at (shuffled_infiles s1) 0 = Inr f" and
    s1: "buffer_store s1 = []" "buffer_read s1 = []" "filecount s1 = 0"
        "nsamplesprocessed s1 = 0" "nextread s1 = f"
    by (auto simp: launch_def)
  from f have ne: "shuffled_infiles s1 \<noteq> []" and hd: "f = hd (shuffled_infiles s1)"
    by (auto simp: at_def hd_conv_nth split: if_splits)
  from s1(5) hd show "nextread s1 = hd (shuffled_infiles s1)" by simp
  from ne m have "unat (of_nat (length (shuffled_infiles s1)) :: size_t) = length (shuffled_infiles s1)"
    by (simp add: unat_of_nat)
  with ne have pos: "\<not> (of_nat (length (shuffled_infiles s1)) :: size_t) \<le> 0"
    by (metis length_0_conv unat_eq_zero word_le_0_iff)
  from j have jd: "join_delete s1 = Some (Inr (), s1\<lparr>buffer_read := td, readthread := Dangling\<rparr>)"
    by (simp add: join_delete_def join_def)
  have same: "s1\<lparr>readthread := Null, buffer_store := td, buffer_read := [], nextread := f,
                   filecount := 1\<rparr> = s1\<lparr>readthread := Null, buffer_store := td, filecount := 1\<rparr>"
    using s1 by (cases s1) auto
  show "prepareBatch_loop fs s1
           = prepareBatch_loop fs (launch fs (s1\<lparr>readthread := Null, buffer_store := td,
                                                  filecount := 1\<rparr>))"
    apply (subst prepareBatch_loop.simps)
    using s1 b t jd f pos
    apply (simp add: nElements_def Let_def append_trainData_def clear_trainData_def)
    apply (simp only: same)
    done
qed

text \<open>
  C1. The claim is that the batches of an epoch, one after the other, are the samples of
  the files in the shuffled order, none twice and none left out. The code does
  otherwise on files \<open>A\<close> (samples a1, a2) and \<open>B\<close> (sample b1) with batch size 1, where
  \<open>getNBatches()\<close> is 3 and the shuffled order is \<open>A\<close>, \<open>B\<close>: the three batches are
  a1, a2 and a1 again, and b1 is not handed out. \<open>prepareNextEpoch\<close> starts the load of
  the file at \<open>filecount_\<close> = 0 and leaves \<open>filecount_\<close> at 0, so the first pass of
  \<open>prepareBatch\<close> schedules the same file once more.
\<close>

theorem first_file_read_twice:
  "run keep_order [(two_files, SetFileList [''A'', ''B'']), (two_files, SetBatchSize 1),
                   (two_files, PrepareNextEpoch 0)] init = Some epoch_AB
   \<and> getNBatches epoch_AB = 3
   \<and> samples_in_order two_files (shuffled_infiles epoch_AB) = [''a1'', ''a2'', ''b1'']
   \<and> getBatches two_files 3 epoch_AB
       = Some (Inr [[''a1''], [''a2''], [''a1'']],
               epoch_AB\<lparr>buffer_store := [''a2''], readthread := Null, filecount := 1,
                         nsamplesprocessed := 3, lastbatchsize := 1\<rparr>)"
proof -
  have "getBatches two_files 3 epoch_AB
       = Some (Inr [[''a1''], [''a2''], [''a1'']],
               epoch_AB\<lparr>buffer_store := [''a2''], readthread := Null, filecount := 1,
                         nsamplesprocessed := 3, lastbatchsize := 1\<rparr>)"
    apply (simp add: numeral_eq_Suc epoch_AB_def)
    apply (simp add: load_defs two_files_def | subst prepareBatch_loop.simps)+
    done
  with epoch_AB_reached [of 0] show ?thesis
    by (simp add: getNBatches_def epoch_AB_def samples_in_order_def two_files_def)
qed

text \<open>
  \<open>getNBatches()\<close> is the total divided by the batch size, whichever of \<open>setFileList\<close>
  and \<open>setBatchSize\<close> is called last.
\<close>

lemma getNBatches_either_order:
  assumes "n \<noteq> 0" and "batchsize s \<noteq> 0"
    and "fst (setFileList fs files s) = Inr ()"
  shows "unat (getNBatches (snd (setBatchSize n (snd (setFileList fs files s)))))
           = unat (getNTotal (snd (setBatchSize n (snd (setFileList fs files s))))) div unat n"
    and "unat (getNBatches (snd (setFileList fs files (snd (setBatchSize n s)))))
           = unat (getNTotal (snd (setFileList fs files (snd (setBatchSize n s))))) div unat n"
    and "getNTotal (snd (setFileList fs files (snd (setBatchSize n s))))
           = getNTotal (snd (setBatchSize n (snd (setFileList fs files s))))"
  using assms
  by (auto simp: getNBatches_def getNTotal_def setBatchSize_def setFileList_def readNTotal_def
        unat_div split: prod.splits option.splits)

text \<open>
  C4. The claim is that \<open>getNBatches()\<close> is the total divided by the batch size and
  that exactly that many calls of \<open>getBatch\<close> succeed in an epoch. The first half holds
  (\<open>getNBatches_either_order\<close>). The second fails on files \<open>A\<close> (two samples) and
  \<open>B\<close> (one sample) with batch size 1: \<open>getNBatches()\<close> is 3 and a fourth call
  succeeds, because the first file has been loaded twice.
\<close>

theorem one_batch_too_many:
  "getNBatches epoch_AB = 3
   \<and> unat (ntotal epoch_AB) div unat (batchsize epoch_AB) = 3
   \<and> getBatches two_files 4 epoch_AB
       = Some (Inr [[''a1''], [''a2''], [''a1''], [''a2'']],
               epoch_AB\<lparr>readthread := Null, filecount := 1,
                         nsamplesprocessed := 4, lastbatchsize := 1\<rparr>)"
proof -
  have "getBatches two_files 4 epoch_AB
       = Some (Inr [[''a1''], [''a2''], [''a1''], [''a2'']],
               epoch_AB\<lparr>readthread := Null, filecount := 1,
                         nsamplesprocessed := 4, lastbatchsize := 1\<rparr>)"
    apply (simp add: numeral_eq_Suc epoch_AB_def)
    apply (simp add: load_defs two_files_def | subst prepareBatch_loop.simps)+
    done
  then show ?thesis
    by (simp add: getNBatches_def epoch_AB_def)
qed

subsection \<open>The begin of an epoch\<close>









subsection \<open>lastBatch within an epoch\<close>

text \<open>
  C5, amended. \<open>lastBatch()\<close> is true if and only if the total minus the size of the
  last batch, a \<open>size_t\<close> difference, is at most the processed count. After call number
  \<open>k\<close> of \<open>getBatch\<close> in an epoch, where \<open>k\<close> is at least 1 and at most the total
  divided by the batch size, it is true if and only if \<open>k + 1\<close> batches would reach or
  exceed the total. So it is true after the last of these calls, false after every call
  before the last but one, and after the last but one it is true exactly when the batch
  size divides the total.
\<close>
theorem lastBatch_in_epoch:
  assumes "prepareNextEpoch mt rd fs0 s0 = Some (Inr u, s)"
    and "getBatches fs k s = Some (Inr batches, s')"
    and "0 < k"
    and "k \<le> unat (ntotal s) div unat (batchsize s)"
  shows "(\<forall>st :: 'a trainDataGenerator.
            lastBatch st \<longleftrightarrow> ntotal st - lastbatchsize st \<le> nsamplesprocessed st)
       \<and> (lastBatch s' \<longleftrightarrow> unat (ntotal s) \<le> (k + 1) * unat (batchsize s))
       \<and> (k = unat (ntotal s) div unat (batchsize s) \<longrightarrow> lastBatch s')
       \<and> (k + 1 = unat (ntotal s) div unat (batchsize s) \<longrightarrow>
            (lastBatch s' \<longleftrightarrow> unat (batchsize s) dvd unat (ntotal s)))
       \<and> (k + 1 < unat (ntotal s) div unat (batchsize s) \<longrightarrow> \<not> lastBatch s')"
proof -
  let ?B = "unat (batchsize s)" and ?T = "unat (ntotal s)"
  let ?n = "?T div ?B"
  from prepareNextEpoch_resets(1) [OF assms(1)] have z: "nsamplesprocessed s = 0" .
  note iff = lastBatch_after_k [OF z assms(2) assms(3) assms(4)]
  from assms(3) assms(4) have Bpos: "0 < ?B" by (cases "?B = 0") simp_all
  have split: "?T = ?n * ?B + ?T mod ?B" by simp
  have rest: "?T mod ?B < ?B" using Bpos by simp
  have below: "?T < ?n * ?B + ?B" using split rest by linarith
  have last: "lastBatch s'" if "k = ?n"
  proof -
    have "(?n + 1) * ?B = ?n * ?B + ?B" by (simp add: algebra_simps)
    with below have "?T \<le> (?n + 1) * ?B" by linarith
    with that iff show ?thesis by simp
  qed
  have before: "lastBatch s' \<longleftrightarrow> ?B dvd ?T" if "k + 1 = ?n"
  proof -
    from that iff have "lastBatch s' \<longleftrightarrow> ?T \<le> ?n * ?B" by simp
    also have "\<dots> \<longleftrightarrow> ?T mod ?B = 0" using split by linarith
    also have "\<dots> \<longleftrightarrow> ?B dvd ?T" by (simp add: dvd_eq_mod_eq_0)
    finally show ?thesis .
  qed
  have early: "\<not> lastBatch s'" if "k + 1 < ?n"
  proof -
    from that have "k + 2 \<le> ?n" by simp
    then have "(k + 2) * ?B \<le> ?n * ?B" by (rule mult_le_mono1)
    then have "(k + 1) * ?B + ?B \<le> ?n * ?B" by (simp add: algebra_simps)
    with split Bpos have "(k + 1) * ?B < ?T" by linarith
    with iff show ?thesis by simp
  qed
  have "\<forall>st :: 'a trainDataGenerator.
          lastBatch st \<longleftrightarrow> ntotal st - lastbatchsize st \<le> nsamplesprocessed st"
    by (simp add: lastBatch_def)
  with iff last before early show ?thesis by blast
qed

text \<open>
  An instance: file \<open>A\<close> alone, two samples, batch size 1. After the first of the two
  calls \<open>lastBatch()\<close> is true, and 1 divides 2.
\<close>

theorem lastBatch_in_epoch_witness:
  "prepareNextEpoch keep_order 0 two_files
     (epoch_A\<lparr>randomcount := 1, readthread := Null, nextread := []\<rparr>) = Some (Inr (), epoch_A)
   \<and> getBatches two_files 1 epoch_A
       = Some (Inr [[''a1'']], epoch_A\<lparr>readthread := Null, buffer_store := [''a2''],
                                        nsamplesprocessed := 1, lastbatchsize := 1\<rparr>)
   \<and> (1::nat) + 1 = unat (ntotal epoch_A) div unat (batchsize epoch_A)
   \<and> lastBatch (epoch_A\<lparr>readthread := Null, buffer_store := [''a2''],
                          nsamplesprocessed := 1, lastbatchsize := 1\<rparr>)
   \<and> unat (batchsize epoch_A) dvd unat (ntotal epoch_A)"
proof -
  have p: "prepareNextEpoch keep_order 0 two_files
     (epoch_A\<lparr>randomcount := 1, readthread := Null, nextread := []\<rparr>) = Some (Inr (), epoch_A)"
    by (simp add: run_defs load_defs epoch_A_def keep_order_def two_files_def)
  have g: "getBatches two_files 1 epoch_A
       = Some (Inr [[''a1'']], epoch_A\<lparr>readthread := Null, buffer_store := [''a2''],
                                        nsamplesprocessed := 1, lastbatchsize := 1\<rparr>)"
    apply (simp add: epoch_A_def)
    apply (simp add: load_defs two_files_def | subst prepareBatch_loop.simps)+
    done
  have k: "(0::nat) < 1" by simp
  have n: "(1::nat) \<le> unat (ntotal epoch_A) div unat (batchsize epoch_A)"
    by (simp add: epoch_A_def)
  from lastBatch_in_epoch [OF p g k n, THEN conjunct2, THEN conjunct1]
  have l: "lastBatch (epoch_A\<lparr>readthread := Null, buffer_store := [''a2''],
                          nsamplesprocessed := 1, lastbatchsize := 1\<rparr>)"
    by (simp add: epoch_A_def)
  have e: "(1::nat) + 1 = unat (ntotal epoch_A) div unat (batchsize epoch_A)"
    by (simp add: epoch_A_def)
  have d: "unat (batchsize epoch_A) dvd unat (ntotal epoch_A)"
    by (simp add: epoch_A_def)
  from p g e l d show ?thesis by (intro conjI)
qed

text \<open>
  The claim as it stands fails there: \<open>lastBatch()\<close> is true after the first call and
  after the second, twice in an epoch of two calls. In the second epoch on \<open>B\<close> alone,
  one sample and batch size 1, \<open>lastBatch()\<close> is true before the only call of the epoch
  and after it: the size of the last batch is still that of the epoch before, and no
  call makes \<open>lastBatch()\<close> become true.
\<close>

theorem lastBatch_twice:
  "unat (ntotal epoch_A) div unat (batchsize epoch_A) = 2
   \<and> lastBatch_after two_files 2 epoch_A = Some [True, True]
   \<and> run keep_order [(two_files, SetFileList [''B'']), (two_files, SetBatchSize 1),
                     (two_files, PrepareNextEpoch 0), (two_files, GetBatch),
                     (two_files, PrepareNextEpoch 0)] init = Some second_epoch_B
   \<and> unat (ntotal second_epoch_B) div unat (batchsize second_epoch_B) = 1
   \<and> lastBatch second_epoch_B
   \<and> lastBatch_after two_files 1 second_epoch_B = Some [True]"
proof -
  have a: "lastBatch_after two_files 2 epoch_A = Some [True, True]"
    apply (simp add: numeral_eq_Suc epoch_A_def)
    apply (simp add: load_defs two_files_def lastBatch_def | subst prepareBatch_loop.simps)+
    done
  have b: "lastBatch_after two_files 1 second_epoch_B = Some [True]"
    apply (simp add: second_epoch_B_def)
    apply (simp add: load_defs two_files_def lastBatch_def | subst prepareBatch_loop.simps)+
    done
  from a b second_epoch_B_reached [of 0 0] show ?thesis
    by (simp add: epoch_A_def second_epoch_B_def lastBatch_def)
qed

subsection \<open>The total of setFileList\<close>

lemma readNTotal_loop_all_filled:
  "\<forall>f\<in>set files. \<not> no_features (sh f) \<Longrightarrow>
   readNTotal_loop sh files n = (None, n + word_of_int (\<Sum>f\<leftarrow>files. hd (hd (sh f))))"
proof (induction files arbitrary: n)
  case Nil
  then show ?case by simp
next
  case (Cons f files)
  from Cons.prems obtain nelements shape rest where "sh f = (nelements # shape) # rest"
    by (cases "sh f"; cases "hd (sh f)") (auto simp: no_features_def)
  with Cons show ?case by (simp add: algebra_simps)
qed

lemma readNTotal_loop_first_unfilled:
  "find (\<lambda>f. no_features (sh f)) files = Some f \<Longrightarrow>
   fst (readNTotal_loop sh files n) = Some (MalformedFile f)"
proof (induction files arbitrary: n)
  case Nil
  then show ?case by simp
next
  case (Cons g files)
  show ?case
  proof (cases "no_features (sh g)")
    case True
    with Cons.prems have "g = f" by simp
    with True show ?thesis
      by (cases "sh f"; cases "hd (sh f)") (auto simp: no_features_def)
  next
    case False
    then obtain nelements shape rest where "sh g = (nelements # shape) # rest"
      by (cases "sh g"; cases "hd (sh g)") (auto simp: no_features_def)
    with Cons False show ?thesis by simp
  qed
qed

text \<open>
  C8, amended. With a batch size other than 0 in the object, \<open>setFileList\<close> returns
  when every file reports at least one feature array and a first feature shape of at
  least one dimension; the total is then the sum of the first entries of these shapes,
  in \<open>size_t\<close>, that is modulo \<open>2 ^ 64\<close>, and the number of batches is the total divided
  by the batch size. Otherwise it throws for the first file in the list that reports no
  feature array or a first feature shape without dimensions. A file that reports zero
  samples is accepted and adds 0.
\<close>
theorem setFileList_total:
  assumes "batchsize s \<noteq> 0"
  shows "((\<forall>f\<in>set files. \<not> no_features (featureShapes fs f)) \<longrightarrow>
            fst (setFileList fs files s) = Inr ()
          \<and> ntotal (snd (setFileList fs files s))
              = word_of_int (\<Sum>f\<leftarrow>files. hd (hd (featureShapes fs f)))
          \<and> uint (ntotal (snd (setFileList fs files s)))
              = (\<Sum>f\<leftarrow>files. hd (hd (featureShapes fs f))) mod 2 ^ 64
          \<and> nbatches (snd (setFileList fs files s))
              = ntotal (snd (setFileList fs files s)) div batchsize s)
       \<and> (\<forall>f. find (\<lambda>f. no_features (featureShapes fs f)) files = Some f \<longrightarrow>
            fst (setFileList fs files s) = Inl (MalformedFile f))"
proof -
  have ok: "fst (setFileList fs files s) = Inr ()
          \<and> ntotal (snd (setFileList fs files s))
              = word_of_int (\<Sum>f\<leftarrow>files. hd (hd (featureShapes fs f)))
          \<and> uint (ntotal (snd (setFileList fs files s)))
              = (\<Sum>f\<leftarrow>files. hd (hd (featureShapes fs f))) mod 2 ^ 64
          \<and> nbatches (snd (setFileList fs files s))
              = ntotal (snd (setFileList fs files s)) div batchsize s"
    if "\<forall>f\<in>set files. \<not> no_features (featureShapes fs f)"
    using readNTotal_loop_all_filled [OF that, of 0] assms
    by (simp add: setFileList_def readNTotal_def uint_word_of_int)
  have bad: "fst (setFileList fs files s) = Inl (MalformedFile f)"
    if "find (\<lambda>f. no_features (featureShapes fs f)) files = Some f" for f
    using readNTotal_loop_first_unfilled [OF that, of 0]
    by (cases "readNTotal_loop (featureShapes fs) files 0")
       (auto simp: setFileList_def readNTotal_def)
  from ok bad show ?thesis by blast
qed

text \<open>
  Instances: \<open>A\<close> and \<open>B\<close> give the total 3 and, with the batch size 2 of a fresh
  generator, one batch; the list \<open>Z\<close>, \<open>N\<close> throws for \<open>N\<close>, which reports no feature
  array.
\<close>

theorem setFileList_total_witness:
  "batchsize (init :: string trainDataGenerator) \<noteq> 0
   \<and> \<not> no_features (featureShapes two_files ''A'')
   \<and> \<not> no_features (featureShapes two_files ''B'')
   \<and> fst (setFileList two_files [''A'', ''B''] (init :: string trainDataGenerator)) = Inr ()
   \<and> ntotal (snd (setFileList two_files [''A'', ''B''] (init :: string trainDataGenerator))) = 3
   \<and> nbatches (snd (setFileList two_files [''A'', ''B''] (init :: string trainDataGenerator))) = 1
   \<and> find (\<lambda>f. no_features (featureShapes empty_file f)) [''Z'', ''N''] = Some ''N''
   \<and> fst (setFileList empty_file [''Z'', ''N''] (init :: string trainDataGenerator))
       = Inl (MalformedFile ''N'')"
proof -
  have z: "find (\<lambda>f. no_features (featureShapes empty_file f)) [''Z'', ''N''] = Some ''N''"
    by (simp add: no_features_def empty_file_def)
  have b: "batchsize (init :: string trainDataGenerator) \<noteq> 0" by (simp add: init_def)
  have f: "\<forall>f\<in>set [''A'', ''B'']. \<not> no_features (featureShapes two_files f)"
    by (simp add: no_features_def two_files_def)
  from f have fA: "\<not> no_features (featureShapes two_files ''A'')"
    and fB: "\<not> no_features (featureShapes two_files ''B'')"
    by simp_all
  from setFileList_total [OF b, of "[''A'', ''B'']" two_files]
    setFileList_total [OF b, of "[''Z'', ''N'']" empty_file] b f fA fB z
  show ?thesis
    by (simp add: two_files_def init_def)
qed

text \<open>
  The claim as it stands fails on the file \<open>Z\<close>, which reports zero samples:
  \<open>setFileList\<close> returns, with the total 0.
\<close>

theorem zero_samples_accepted:
  "fst (setFileList empty_file [''Z''] (init :: string trainDataGenerator)) = Inr ()
   \<and> ntotal (snd (setFileList empty_file [''Z''] (init :: string trainDataGenerator))) = 0"
  by (simp add: setFileList_def readNTotal_def empty_file_def init_def no_features_def Let_def)

subsection \<open>The retry loop\<close>

lemma unat_add_small:
  fixes a b :: size_t
  assumes "unat a + unat b < 2 ^ 64"
  shows "unat (a + b) = unat a + unat b"
  using assms unat_add_lem [of a b] by simp

lemma unat_plus_one:
  fixes n t :: size_t
  assumes "n < t"
  shows "unat (n + 1) = unat n + 1"
proof -
  from assms have "unat n < unat t" by (simp add: word_less_nat_alt)
  moreover have "unat t < 2 ^ 64" using unsigned_less [of t] by simp
  ultimately have "unat n + unat (1 :: size_t) < 2 ^ 64" by simp
  from unat_add_small [OF this] show ?thesis by simp
qed

text \<open>
  A file that stays absent is probed once for every unit of the budget; a file whose
  every read throws is tried for half the budget, rounded up, because each such pass
  adds two to \<open>ntries\<close>. With a budget below \<open>2 ^ 64 - 1\<close> the loop returns, whatever the
  passes find, after at most as many failed passes as the budget has units.
\<close>

lemma readBuffer_loop_absent:
  assumes "\<forall>k. env k = Absent"
  shows "readBuffer_loop env timeout pass ntries = Some (pass + (unat timeout - unat ntries), None)"
proof (induction "unat timeout - unat ntries" arbitrary: pass ntries rule: less_induct)
  case less
  show ?case
  proof (cases "ntries < timeout")
    case False
    then have "unat timeout - unat ntries = 0" by (simp add: word_less_nat_alt)
    with False show ?thesis by (subst readBuffer_loop.simps) simp
  next
    case True
    then have u: "unat (ntries + 1) = unat ntries + 1" by (rule unat_plus_one)
    from True have lt: "unat ntries < unat timeout" by (simp add: word_less_nat_alt)
    with u have "unat timeout - unat (ntries + 1) < unat timeout - unat ntries" by simp
    from less [OF this, of "Suc pass"] u lt True assms show ?thesis
      by (subst readBuffer_loop.simps) simp
  qed
qed

lemma readBuffer_loop_glitch:
  assumes "\<forall>k. env k = Glitch" and "unat timeout < 2 ^ 64 - 1"
  shows "readBuffer_loop env timeout pass ntries
           = Some (pass + (unat timeout - unat ntries + 1) div 2, None)"
proof (induction "unat timeout - unat ntries" arbitrary: pass ntries rule: less_induct)
  case less
  show ?case
  proof (cases "ntries < timeout")
    case False
    then have "unat timeout - unat ntries = 0" by (simp add: word_less_nat_alt)
    with False show ?thesis by (subst readBuffer_loop.simps) simp
  next
    case True
    then have u1: "unat (ntries + 1) = unat ntries + 1" by (rule unat_plus_one)
    from True have lt: "unat ntries < unat timeout" by (simp add: word_less_nat_alt)
    with assms(2) u1 have "unat (ntries + 1) + unat (1 :: size_t) < 2 ^ 64" by simp
    then have "unat (ntries + 1 + 1) = unat (ntries + 1) + unat (1 :: size_t)"
      by (rule unat_add_small)
    with u1 have u2: "unat (ntries + 1 + 1) = unat ntries + 2" by simp
    with lt have "unat timeout - unat (ntries + 1 + 1) < unat timeout - unat ntries" by simp
    from less [OF this, of "Suc pass"] u2 lt True assms(1) show ?thesis
      by (subst readBuffer_loop.simps) (simp, arith)
  qed
qed


lemma readBuffer_loop_returns:
  assumes "unat timeout < 2 ^ 64 - 1"
  shows "\<exists>p r. readBuffer_loop env timeout pass ntries = Some (p, r) \<and> pass \<le> p \<and>
               p - pass \<le> unat timeout - unat ntries"
proof (induction "unat timeout - unat ntries" arbitrary: pass ntries rule: less_induct)
  case less
  show ?case
  proof (cases "ntries < timeout")
    case False
    then show ?thesis by (subst readBuffer_loop.simps) simp
  next
    case True
    then have u1: "unat (ntries + 1) = unat ntries + 1" by (rule unat_plus_one)
    from True have lt: "unat ntries < unat timeout" by (simp add: word_less_nat_alt)
    with assms u1 have "unat (ntries + 1) + unat (1 :: size_t) < 2 ^ 64" by simp
    then have "unat (ntries + 1 + 1) = unat (ntries + 1) + unat (1 :: size_t)"
      by (rule unat_add_small)
    with u1 have u2: "unat (ntries + 1 + 1) = unat ntries + 2" by simp
    show ?thesis
    proof (cases "env pass")
      case Absent
      from u1 lt have "unat timeout - unat (ntries + 1) < unat timeout - unat ntries" by simp
      from less [OF this, of "Suc pass"] obtain p r where
        "readBuffer_loop env timeout (Suc pass) (ntries + 1) = Some (p, r)" "Suc pass \<le> p"
        "p - Suc pass \<le> unat timeout - unat (ntries + 1)" by blast
      with Absent True u1 lt show ?thesis
        by (subst readBuffer_loop.simps) auto
    next
      case Glitch
      from u2 lt have "unat timeout - unat (ntries + 1 + 1) < unat timeout - unat ntries" by simp
      from less [OF this, of "Suc pass"] obtain p r where
        "readBuffer_loop env timeout (Suc pass) (ntries + 1 + 1) = Some (p, r)" "Suc pass \<le> p"
        "p - Suc pass \<le> unat timeout - unat (ntries + 1 + 1)" by blast
      with Glitch True u2 lt show ?thesis
        by (subst readBuffer_loop.simps) auto
    next
      case (Readable td)
      with True show ?thesis by (subst readBuffer_loop.simps) simp
    qed
  qed
qed

text \<open>
  C3. The claim is that every failure, of either kind, costs one attempt of the budget.
  The code counts a read that throws twice: with \<open>setFileTimeout(4)\<close>, a file whose
  first two reads throw is given up after two attempts, although its third read would
  go through, while a file that is absent twice is read at the third attempt.
\<close>
theorem glitch_counts_twice:
  "readBuffer_loop (probe glitchy ''G'') 4 0 0 = Some (2, None)
   \<and> readBuffer_loop (probe glitchy ''H'') 4 0 0 = Some (2, Some [''H''])
   \<and> readBuffer glitchy (init\<lparr>nextread := ''G'', filetimeout := 4\<rparr>)
       = Some (Inl (FileUnavailable ''G''), init\<lparr>nextread := ''G'', filetimeout := 4\<rparr>)
   \<and> readBuffer glitchy (init\<lparr>nextread := ''H'', filetimeout := 4\<rparr>)
       = Some (Inr (), init\<lparr>nextread := ''H'', filetimeout := 4, buffer_read := [''H'']\<rparr>)"
  by (simp add: readBuffer_def readBuffer_loop.simps glitchy_def init_def clear_trainData_def)

subsection \<open>Asking for more batches than the epoch has\<close>

lemma epoch_spec_reached:
  "run keep_order [(spec_files, SetFileList [''A'', ''B'']), (spec_files, SetBatchSize 100),
                   (spec_files, PrepareNextEpoch rd)] init = Some epoch_spec"
  by (simp add: run_defs load_defs spec_files_def keep_order_def epoch_spec_def)

text \<open>
  C2. The claim is that \<open>getBatch\<close> either returns a batch or throws for want of
  data, and that in the example of files of 100 and 150 samples with batch size 100 the
  third call throws. The code does otherwise there: the third call returns 100 samples,
  because the first file has been loaded twice, and the fourth call neither returns nor
  throws, because the loop of \<open>prepareBatch\<close> tests for missing files only while fewer
  samples than the total have been loaded (\<open>prepareBatch_loop_spins\<close>).
\<close>
theorem third_batch_returned:
  "run keep_order [(spec_files, SetFileList [''A'', ''B'']), (spec_files, SetBatchSize 100),
                   (spec_files, PrepareNextEpoch 0)] init = Some epoch_spec
   \<and> getBatches spec_files 3 epoch_spec
       = Some (Inr [replicate 100 ''a'', replicate 100 ''a'', replicate 100 ''b''],
               epoch_spec\<lparr>buffer_store := replicate 50 ''b'', readthread := Null,
                           nextread := ''B'', filecount := 2, nsamplesprocessed := 300,
                           lastbatchsize := 100\<rparr>)
   \<and> getBatch spec_files
        (epoch_spec\<lparr>buffer_store := replicate 50 ''b'', readthread := Null,
                     nextread := ''B'', filecount := 2, nsamplesprocessed := 300,
                     lastbatchsize := 100\<rparr>) = None"
proof -
  have three: "getBatches spec_files 3 epoch_spec
       = Some (Inr [replicate 100 ''a'', replicate 100 ''a'', replicate 100 ''b''],
               epoch_spec\<lparr>buffer_store := replicate 50 ''b'', readthread := Null,
                           nextread := ''B'', filecount := 2, nsamplesprocessed := 300,
                           lastbatchsize := 100\<rparr>)"
    apply (simp add: numeral_3_eq_3 epoch_spec_def)
    apply (simp add: load_defs spec_files_def word_le_nat_alt | subst prepareBatch_loop.simps)+
    done
  have "prepareBatch_loop spec_files
        (epoch_spec\<lparr>buffer_store := replicate 50 ''b'', readthread := Null,
                     nextread := ''B'', filecount := 2, nsamplesprocessed := 300,
                     lastbatchsize := 100\<rparr>) = None"
    by (rule prepareBatch_loop_spins) (simp_all add: epoch_spec_def nElements_def)
  then have fourth: "getBatch spec_files
        (epoch_spec\<lparr>buffer_store := replicate 50 ''b'', readthread := Null,
                     nextread := ''B'', filecount := 2, nsamplesprocessed := 300,
                     lastbatchsize := 100\<rparr>) = None"
    by (simp add: getBatch_def prepareBatch_def)
  from epoch_spec_reached [of 0] three fourth show ?thesis by simp
qed

end
